theory Spec2Isabelle
  imports Complex_Main
begin

section \<open>The interaction loop of \<^verbatim>\<open>chess.py\<close>\<close>

text \<open>
  The program is one class, \<^verbatim>\<open>ChessGame\<close>: a pygame event loop around a
  \<^verbatim>\<open>chess.Board\<close> (the python-chess library) and a \<^verbatim>\<open>Stockfish\<close> object (the
  stockfish wrapper library).  Both libraries are outside the repository.  The
  board is therefore a type parameter \<open>'b\<close> and every library call the loop makes
  on it is a field of a record of operations; the engine is a record of
  responses.  Rendering (\<^verbatim>\<open>update_display\<close> and what it calls) reads the state and
  never writes it, so it does not appear.  Python floats are modelled as reals:
  rounding of \<^verbatim>\<open>value / 100.0\<close>, infinities and NaN are not represented.
\<close>

subsection \<open>Python values and exceptions\<close>

datatype exn = KeyError | TypeError | OverflowError | IndexError | InvalidMoveError | EngineError

datatype pyval = PyNone | PyInt int | PyFloat real | PyStr string

type_synonym pydict = "(string \<times> pyval) list"

text \<open>\<^verbatim>\<open>d[k]\<close>: a missing key raises \<^verbatim>\<open>KeyError\<close>.\<close>

definition getitem :: "pydict \<Rightarrow> string \<Rightarrow> exn + pyval" where
  "getitem d k = (case map_of d k of None \<Rightarrow> Inl KeyError | Some v \<Rightarrow> Inr v)"

text \<open>
  The integers Python converts to a float: beyond them \<^verbatim>\<open>int / float\<close> raises
  \<^verbatim>\<open>OverflowError\<close>.
\<close>

definition float_range :: "int \<Rightarrow> bool" where
  "float_range v \<longleftrightarrow> - (2 ^ 1024 - 2 ^ 970) < v \<and> v < 2 ^ 1024 - 2 ^ 970"

text \<open>\<^verbatim>\<open>v / 100.0\<close>: defined on numbers, \<^verbatim>\<open>TypeError\<close> on \<^verbatim>\<open>None\<close> and on strings.\<close>

fun truediv_100 :: "pyval \<Rightarrow> exn + real" where
  "truediv_100 (PyInt v) = (if float_range v then Inr (real_of_int v / 100) else Inl OverflowError)"
| "truediv_100 (PyFloat f) = Inr (f / 100)"
| "truediv_100 PyNone = Inl TypeError"
| "truediv_100 (PyStr t) = Inl TypeError"

text \<open>\<^verbatim>\<open>v > 0\<close>: defined on numbers, \<^verbatim>\<open>TypeError\<close> on \<^verbatim>\<open>None\<close> and on strings.\<close>

fun gt_0 :: "pyval \<Rightarrow> exn + bool" where
  "gt_0 (PyInt v) = Inr (v > 0)"
| "gt_0 (PyFloat f) = Inr (f > 0)"
| "gt_0 PyNone = Inl TypeError"
| "gt_0 (PyStr t) = Inl TypeError"

subsection \<open>The rules library as a parameter\<close>

datatype move = Move (from_square: int) (to_square: int) (promotion: "int option") (drop: "int option")

datatype piece = Piece (piece_type: int) (color: bool)

text \<open>
  The calls made on \<^verbatim>\<open>self.board\<close> and on \<^verbatim>\<open>chess.Move\<close>:
  \<open>start\<close> is the value of \<^verbatim>\<open>chess.Board()\<close>, which is also what \<^verbatim>\<open>board.reset()\<close>
  restores; \<open>is_legal b m\<close> is \<^verbatim>\<open>m in b.legal_moves\<close>; \<open>stack_len b\<close> is
  \<^verbatim>\<open>len(b.move_stack)\<close>; \<open>from_uci\<close> is \<^verbatim>\<open>chess.Move.from_uci\<close>, which raises on
  a string that is not a move in UCI notation.  The loop hands \<open>piece_at\<close> and
  \<open>is_legal\<close> whatever square a press computes, and the library indexes its
  square tables with it: on a square that is not on the board these two calls can
  raise, so their results are sums.  The other calls are made on values the
  library itself produced.
\<close>

record 'b rules =
  start :: 'b
  piece_at :: "'b \<Rightarrow> int \<Rightarrow> exn + piece option"
  turn :: "'b \<Rightarrow> bool"
  is_legal :: "'b \<Rightarrow> move \<Rightarrow> exn + bool"
  push :: "'b \<Rightarrow> move \<Rightarrow> 'b"
  pop :: "'b \<Rightarrow> 'b"
  stack_len :: "'b \<Rightarrow> nat"
  is_game_over :: "'b \<Rightarrow> bool"
  fen :: "'b \<Rightarrow> string"
  from_uci :: "string \<Rightarrow> exn + move"

subsection \<open>The engine as a parameter\<close>

text \<open>
  The \<^verbatim>\<open>Stockfish\<close> object answers three calls.  Each may raise (\<open>Some e\<close>, \<open>Inl e\<close>).
  \<^verbatim>\<open>get_evaluation()\<close> and \<^verbatim>\<open>get_best_move()\<close> take no argument in the source: they
  answer for the position set by the preceding \<^verbatim>\<open>set_fen_position\<close>, which is the
  argument here.
\<close>

record advisor =
  set_fen_position :: "string \<Rightarrow> exn option"
  get_evaluation :: "string \<Rightarrow> exn + pydict"
  get_best_move :: "string \<Rightarrow> exn + string option"

datatype call = SetFen string | GetEvaluation | GetBestMove

subsection \<open>The game state\<close>

text \<open>
  The fields of \<^verbatim>\<open>ChessGame\<close> set in \<^verbatim>\<open>__init__\<close> (lines 41 to 54), together with
  three pieces of state the loop acts on that live elsewhere: \<open>timer_ms\<close> is
  pygame's timer for \<^verbatim>\<open>AI_MOVE_EVENT\<close> (\<^verbatim>\<open>pygame.time.set_timer(AI_MOVE_EVENT, ms)\<close>
  sets it, 0 meaning no timer); \<open>running\<close> is the local variable of \<^verbatim>\<open>run\<close>;
  \<open>calls\<close> is the sequence of calls made so far on the \<^verbatim>\<open>Stockfish\<close> object.
\<close>

record 'b game =
  stockfish :: "advisor option"
  calls :: "call list"
  board :: 'b
  selected_square :: "int option"
  last_ai_move :: "move option"
  current_score :: real
  ai_move_scheduled :: bool
  timer_ms :: nat
  running :: bool

definition BOARD_SIZE :: int where
  "BOARD_SIZE = 400"

definition SQUARE_SIZE :: int where
  "SQUARE_SIZE = BOARD_SIZE div 8"

definition K_u :: int where
  "K_u = 117"

definition K_r :: int where
  "K_r = 114"

text \<open>The state after \<^verbatim>\<open>__init__\<close>; \<open>sf\<close> is \<open>None\<close> when creating the engine raised.\<close>

definition init_game :: "'b rules \<Rightarrow> advisor option \<Rightarrow> 'b game" where
  "init_game R sf =
     \<lparr>stockfish = sf, calls = [], board = start R, selected_square = None,
      last_ai_move = None, current_score = 0, ai_move_scheduled = False,
      timer_ms = 0, running = True\<rparr>"

subsection \<open>\<^verbatim>\<open>get_evaluation_score\<close> (lines 85 to 102)\<close>

text \<open>The body of the \<^verbatim>\<open>try\<close> of lines 88 to 90, with the calls it makes.\<close>

definition try_evaluation :: "advisor \<Rightarrow> string \<Rightarrow> (exn + pydict) \<times> call list" where
  "try_evaluation sf f =
     (case set_fen_position sf f of
        Some e \<Rightarrow> (Inl e, [SetFen f])
      | None \<Rightarrow> (get_evaluation sf f, [SetFen f, GetEvaluation]))"

text \<open>Lines 94 to 99: the local variable \<^verbatim>\<open>raw_score\<close>.  These lines are outside the \<^verbatim>\<open>try\<close>.\<close>

definition raw_score :: "pydict \<Rightarrow> exn + real" where
  "raw_score evaluation =
     (case getitem evaluation ''type'' of
        Inl e \<Rightarrow> Inl e
      | Inr t \<Rightarrow>
          if t = PyStr ''cp'' then
            (case getitem evaluation ''value'' of
               Inl e \<Rightarrow> Inl e
             | Inr v \<Rightarrow> truediv_100 v)
          else if t = PyStr ''mate'' then
            (case getitem evaluation ''value'' of
               Inl e \<Rightarrow> Inl e
             | Inr v \<Rightarrow>
                 (case gt_0 v of
                    Inl e \<Rightarrow> Inl e
                  | Inr p \<Rightarrow> Inr (if p then 5 else - 5)))
          else Inr 0)"

text \<open>Line 100.\<close>

definition clamp_score :: "real \<Rightarrow> real" where
  "clamp_score r = max (- 5) (min 5 r)"

definition get_evaluation_score :: "'b rules \<Rightarrow> 'b game \<Rightarrow> (exn + real) \<times> call list" where
  "get_evaluation_score R s =
     (case stockfish s of
        None \<Rightarrow> (Inr 0, [])
      | Some sf \<Rightarrow>
          (case try_evaluation sf (fen R (board s)) of
             (Inl e, cs) \<Rightarrow> (Inr 0, cs)
           | (Inr evaluation, cs) \<Rightarrow>
               (case raw_score evaluation of
                  Inl e \<Rightarrow> (Inl e, cs)
                | Inr r \<Rightarrow> (Inr (clamp_score r), cs))))"

text \<open>\<^verbatim>\<open>self.current_score = self.get_evaluation_score()\<close>\<close>

definition update_score :: "'b rules \<Rightarrow> 'b game \<Rightarrow> exn + 'b game" where
  "update_score R s =
     (case get_evaluation_score R s of
        (Inl e, cs) \<Rightarrow> Inl e
      | (Inr v, cs) \<Rightarrow> Inr (s\<lparr>calls := calls s @ cs, current_score := v\<rparr>))"

subsection \<open>Square geometry (lines 104 to 110 and 214 to 220)\<close>

text \<open>The top-left pixel of a square, as \<^verbatim>\<open>highlight_square\<close> computes it.\<close>

definition square_pixel :: "int \<Rightarrow> int \<times> int" where
  "square_pixel square =
     (let col = square mod 8; row = 7 - square div 8
      in (col * SQUARE_SIZE, row * SQUARE_SIZE))"

text \<open>The square of a click; \<open>None\<close> when the click is outside the board area (line 216).\<close>

definition square_clicked :: "int \<times> int \<Rightarrow> int option" where
  "square_clicked pos =
     (case pos of (x, y) \<Rightarrow>
        if x < BOARD_SIZE \<and> y < BOARD_SIZE then
          (let col = x div SQUARE_SIZE; row = y div SQUARE_SIZE; chess_row = 7 - row
           in Some (chess_row * 8 + col))
        else None)"

subsection \<open>\<^verbatim>\<open>schedule_ai_move\<close> and \<^verbatim>\<open>ai_move\<close> (lines 112 to 133)\<close>

definition schedule_ai_move :: "nat \<Rightarrow> 'b game \<Rightarrow> 'b game" where
  "schedule_ai_move delay_ms s = s\<lparr>timer_ms := delay_ms, ai_move_scheduled := True\<rparr>"

text \<open>The \<^verbatim>\<open>try\<close> of lines 123 to 128: an exception gives \<^verbatim>\<open>best_uci = None\<close>.\<close>

definition try_best_move :: "advisor \<Rightarrow> string \<Rightarrow> string option \<times> call list" where
  "try_best_move sf f =
     (case set_fen_position sf f of
        Some e \<Rightarrow> (None, [SetFen f])
      | None \<Rightarrow>
          (case get_best_move sf f of
             Inl e \<Rightarrow> (None, [SetFen f, GetBestMove])
           | Inr r \<Rightarrow> (r, [SetFen f, GetBestMove])))"

text \<open>\<^verbatim>\<open>if best_uci:\<close> is false for \<^verbatim>\<open>None\<close> and for the empty string.\<close>

definition ai_move :: "'b rules \<Rightarrow> 'b game \<Rightarrow> exn + 'b game" where
  "ai_move R s =
     (case stockfish s of
        None \<Rightarrow> Inr s
      | Some sf \<Rightarrow>
          (case try_best_move sf (fen R (board s)) of (best_uci, cs) \<Rightarrow>
             (let s1 = s\<lparr>calls := calls s @ cs\<rparr> in
              case best_uci of
                None \<Rightarrow> Inr s1
              | Some u \<Rightarrow>
                  if u = [] then Inr s1
                  else
                    (case from_uci R u of
                       Inl e \<Rightarrow> Inl e
                     | Inr m \<Rightarrow>
                         (case is_legal R (board s1) m of
                            Inl e \<Rightarrow> Inl e
                          | Inr legal \<Rightarrow>
                              if legal
                              then Inr (s1\<lparr>board := push R (board s1) m, last_ai_move := Some m\<rparr>)
                              else Inr s1)))))"

subsection \<open>The event loop of \<^verbatim>\<open>run\<close> (lines 202 to 270)\<close>

datatype event = QUIT | MOUSEBUTTONDOWN int int | KEYDOWN int | AI_MOVE_EVENT | OTHER

text \<open>
  Lines 214 to 241, reached when the game is not over.  The test of line 216 has
  no lower bound: a press with a negative coordinate passes it and gives a square
  that is not on the board.
\<close>

definition on_mouse :: "'b rules \<Rightarrow> 'b game \<Rightarrow> int \<Rightarrow> int \<Rightarrow> exn + 'b game" where
  "on_mouse R s x y =
     (case square_clicked (x, y) of
        None \<Rightarrow> Inr s
      | Some sq \<Rightarrow>
          (case selected_square s of
             None \<Rightarrow>
               (case piece_at R (board s) sq of
                  Inl e \<Rightarrow> Inl e
                | Inr None \<Rightarrow> Inr s
                | Inr (Some p) \<Rightarrow>
                    if color p = turn R (board s) then Inr (s\<lparr>selected_square := Some sq\<rparr>)
                    else Inr s)
           | Some sel \<Rightarrow>
               (let m = Move sel sq None None in
                case is_legal R (board s) m of
                  Inl e \<Rightarrow> Inl e
                | Inr legal \<Rightarrow>
                    if legal then
                      (case update_score R (s\<lparr>board := push R (board s) m, selected_square := None\<rparr>) of
                         Inl e \<Rightarrow> Inl e
                       | Inr s' \<Rightarrow>
                           if \<not> is_game_over R (board s') then Inr (schedule_ai_move 3000 s')
                           else Inr s')
                    else Inr (s\<lparr>selected_square := None\<rparr>))))"

text \<open>Lines 243 to 256.\<close>

definition on_key :: "'b rules \<Rightarrow> 'b game \<Rightarrow> int \<Rightarrow> exn + 'b game" where
  "on_key R s k =
     (if k = K_u then
        (if stack_len R (board s) \<ge> 1 then update_score R (s\<lparr>board := pop R (board s)\<rparr>)
         else Inr s)
      else if k = K_r then
        update_score R (s\<lparr>board := start R, selected_square := None, last_ai_move := None\<rparr>)
      else Inr s)"

text \<open>Lines 258 to 265.\<close>

definition on_timer :: "'b rules \<Rightarrow> 'b game \<Rightarrow> exn + 'b game" where
  "on_timer R s =
     (let s1 = s\<lparr>timer_ms := 0, ai_move_scheduled := False\<rparr> in
      if \<not> is_game_over R (board s1) then
        (case ai_move R s1 of
           Inl e \<Rightarrow> Inl e
         | Inr s2 \<Rightarrow> update_score R s2)
      else Inr s1)"

text \<open>
  One iteration of the \<^verbatim>\<open>for event in pygame.event.get()\<close> loop.  \<open>Inl e\<close>: the
  exception \<open>e\<close> leaves \<^verbatim>\<open>run\<close>, which ends the program.  A mouse press on a
  finished game matches none of the later \<^verbatim>\<open>elif\<close> branches.
\<close>

definition handle_event :: "'b rules \<Rightarrow> 'b game \<Rightarrow> event \<Rightarrow> exn + 'b game" where
  "handle_event R s ev =
     (case ev of
        QUIT \<Rightarrow> Inr (s\<lparr>running := False\<rparr>)
      | MOUSEBUTTONDOWN x y \<Rightarrow>
          if \<not> is_game_over R (board s) then on_mouse R s x y else Inr s
      | KEYDOWN k \<Rightarrow> on_key R s k
      | AI_MOVE_EVENT \<Rightarrow> on_timer R s
      | OTHER \<Rightarrow> Inr s)"

fun run_events :: "'b rules \<Rightarrow> 'b game \<Rightarrow> event list \<Rightarrow> exn + 'b game" where
  "run_events R s [] = Inr s"
| "run_events R s (ev # evs) =
     (case handle_event R s ev of
        Inl e \<Rightarrow> Inl e
      | Inr s' \<Rightarrow> run_events R s' evs)"

text \<open>
  \<^verbatim>\<open>run\<close> on the events the environment delivers: one list per call of
  \<^verbatim>\<open>pygame.event.get()\<close>, that is per iteration of \<^verbatim>\<open>while running\<close>.  The score is
  computed once before the loop (line 206).  The result is the state once the
  given events are consumed or the loop has ended.
\<close>

fun run_loop :: "'b rules \<Rightarrow> 'b game \<Rightarrow> event list list \<Rightarrow> exn + 'b game" where
  "run_loop R s [] = Inr s"
| "run_loop R s (evs # rest) =
     (if running s then
        (case run_events R s evs of
           Inl e \<Rightarrow> Inl e
         | Inr s' \<Rightarrow> run_loop R s' rest)
      else Inr s)"

definition run :: "'b rules \<Rightarrow> advisor option \<Rightarrow> event list list \<Rightarrow> exn + 'b game" where
  "run R sf evss =
     (case update_score R (init_game R sf) of
        Inl e \<Rightarrow> Inl e
      | Inr s \<Rightarrow> run_loop R s evss)"

subsection \<open>Reachable states\<close>

text \<open>
  \<^verbatim>\<open>run\<close> computes the score once before the loop (line 206), then handles events.
  Between two events the engine process may change its behaviour (it can die, or
  answer differently), the \<^verbatim>\<open>Stockfish\<close> object staying in place.
\<close>

inductive reachable :: "'b rules \<Rightarrow> 'b game \<Rightarrow> bool" for R :: "'b rules" where
  enter: "update_score R (init_game R sf) = Inr s \<Longrightarrow> reachable R s"
| step: "reachable R s \<Longrightarrow> handle_event R s ev = Inr s' \<Longrightarrow> reachable R s'"
| engine: "reachable R s \<Longrightarrow> stockfish s = Some a \<Longrightarrow> reachable R (s\<lparr>stockfish := Some a'\<rparr>)"

subsection \<open>What the loop relies on from the board's move stack\<close>

text \<open>
  python-chess keeps, next to the position, the stack of moves played and of the
  positions they were played from: \<^verbatim>\<open>pop\<close> after \<^verbatim>\<open>push\<close> restores the board, a
  new board has an empty move stack, \<^verbatim>\<open>push\<close> lengthens the stack by one and
  \<^verbatim>\<open>pop\<close> on a non-empty stack shortens it by one.  These are properties of the
  library, stated here as a predicate on the parameter.
\<close>

definition stack_laws :: "'b rules \<Rightarrow> bool" where
  "stack_laws R \<longleftrightarrow>
     stack_len R (start R) = 0 \<and>
     (\<forall>b m. pop R (push R b m) = b) \<and>
     (\<forall>b m. stack_len R (push R b m) = Suc (stack_len R b)) \<and>
     (\<forall>b. stack_len R b \<ge> 1 \<longrightarrow> stack_len R (pop R b) = stack_len R b - 1)"

text \<open>No board met by undoing \<open>n\<close> moves from \<open>b\<close> is a finished game.\<close>

fun playable_below :: "'b rules \<Rightarrow> 'b \<Rightarrow> nat \<Rightarrow> bool" where
  "playable_below R b 0 = True"
| "playable_below R b (Suc n) = (\<not> is_game_over R (pop R b) \<and> playable_below R (pop R b) n)"

subsection \<open>An instance for evaluating the loop\<close>

text \<open>
  Fool's mate, 1. f3 e5 2. g4 Qh4 mate, as an instance of the rules.  The board
  is its move stack.  The instance is a table of the answers python-chess gives
  along this line: the pieces on the squares 0 to 63 of each position, the side
  to move, the FEN strings, the length of the stack, the end of the game at the
  mate and not before.  Of the moves, only those of the line are legal here, and
  \<open>from_uci\<close> reads only their four strings: the runs below try no other legal
  chess move and no other well-formed string.  Outside the squares 0 to 63 the
  two board queries raise \<^verbatim>\<open>IndexError\<close> here; python-chess does so from square 64
  on, past the end of its tables, and the runs below ask about no negative square.
\<close>

definition fools_mate :: "move list" where
  "fools_mate =
     [Move 13 21 None None, Move 52 36 None None, Move 14 30 None None, Move 59 31 None None]"

definition fen_start :: string where
  "fen_start = ''rnbqkbnr/pppppppp/8/8/8/8/PPPPPPPP/RNBQKBNR w KQkq - 0 1''"

definition fen_f3 :: string where
  "fen_f3 = ''rnbqkbnr/pppppppp/8/8/8/5P2/PPPPP1PP/RNBQKBNR b KQkq - 0 1''"

definition fen_e5 :: string where
  "fen_e5 = ''rnbqkbnr/pppp1ppp/8/4p3/8/5P2/PPPPP1PP/RNBQKBNR w KQkq - 0 2''"

definition fen_g4 :: string where
  "fen_g4 = ''rnbqkbnr/pppp1ppp/8/4p3/6P1/5P2/PPPPP2P/RNBQKBNR b KQkq - 0 2''"

definition fen_mate :: string where
  "fen_mate = ''rnb1kbnr/pppp1ppp/8/4p3/6Pq/5P2/PPPPP2P/RNBQKBNR w KQkq - 1 3''"

text \<open>The initial position; piece types are python-chess's, 1 for a pawn to 6 for a king.\<close>

definition start_piece :: "int \<Rightarrow> piece option" where
  "start_piece sq =
     (if sq div 8 = 0 then Some (Piece ([4, 2, 3, 5, 6, 3, 2, 4] ! nat (sq mod 8)) True)
      else if sq div 8 = 1 then Some (Piece 1 True)
      else if sq div 8 = 6 then Some (Piece 1 False)
      else if sq div 8 = 7 then Some (Piece ([4, 2, 3, 5, 6, 3, 2, 4] ! nat (sq mod 8)) False)
      else None)"

text \<open>A move of the line takes the piece from its square to an empty one.\<close>

definition relocate :: "(int \<Rightarrow> piece option) \<Rightarrow> move \<Rightarrow> int \<Rightarrow> piece option" where
  "relocate pos m sq =
     (if sq = to_square m then pos (from_square m)
      else if sq = from_square m then None
      else pos sq)"

definition fools_mate_rules :: "move list rules" where
  "fools_mate_rules =
     \<lparr>start = [],
      piece_at = (\<lambda>b sq.
         if 0 \<le> sq \<and> sq \<le> 63 then Inr (foldl relocate start_piece b sq) else Inl IndexError),
      turn = (\<lambda>b. even (length b)),
      is_legal = (\<lambda>b m.
         if 0 \<le> from_square m \<and> from_square m \<le> 63 \<and> 0 \<le> to_square m \<and> to_square m \<le> 63
         then Inr (length b < 4 \<and> b = take (length b) fools_mate \<and> m = fools_mate ! length b)
         else Inl IndexError),
      push = (\<lambda>b m. b @ [m]),
      pop = butlast,
      stack_len = length,
      is_game_over = (\<lambda>b. b = fools_mate),
      fen = (\<lambda>b.
         if b = take 0 fools_mate then fen_start
         else if b = take 1 fools_mate then fen_f3
         else if b = take 2 fools_mate then fen_e5
         else if b = take 3 fools_mate then fen_g4
         else if b = fools_mate then fen_mate
         else []),
      from_uci = (\<lambda>u.
         if u = ''f2f3'' then Inr (Move 13 21 None None)
         else if u = ''e7e5'' then Inr (Move 52 36 None None)
         else if u = ''g2g4'' then Inr (Move 14 30 None None)
         else if u = ''d8h4'' then Inr (Move 59 31 None None)
         else Inl InvalidMoveError)\<rparr>"

text \<open>An engine that answers every call: \<open>cp\<close> centipawns, and the move of the line.\<close>

definition steady_engine :: "int \<Rightarrow> advisor" where
  "steady_engine cp =
     \<lparr>set_fen_position = (\<lambda>f. None),
      get_evaluation = (\<lambda>f. Inr [(''type'', PyStr ''cp''), (''value'', PyInt cp)]),
      get_best_move = (\<lambda>f.
         Inr (if f = fen_start then Some ''f2f3''
              else if f = fen_f3 then Some ''e7e5''
              else if f = fen_e5 then Some ''g2g4''
              else if f = fen_g4 then Some ''d8h4''
              else None))\<rparr>"


text \<open>
  An engine whose \<^verbatim>\<open>get_evaluation()\<close> returns the empty dictionary, as the stockfish
  wrapper does when the engine prints its best move without a score line before it.
\<close>

definition scoreless_engine :: advisor where
  "scoreless_engine =
     \<lparr>set_fen_position = (\<lambda>f. None),
      get_evaluation = (\<lambda>f. Inr []),
      get_best_move = (\<lambda>f. Inr None)\<rparr>"

text \<open>An engine whose best move is a string that is not a move in UCI notation.\<close>

definition garbled_engine :: advisor where
  "garbled_engine =
     \<lparr>set_fen_position = (\<lambda>f. None),
      get_evaluation = (\<lambda>f. Inr [(''type'', PyStr ''cp''), (''value'', PyInt 0)]),
      get_best_move = (\<lambda>f. Inr (Some ''zz''))\<rparr>"

text \<open>
  States of a game against \<open>steady_engine 30\<close>, for evaluating the loop: every field
  but the engine, the score and \<open>running\<close> is an argument.
\<close>

definition snapshot ::
  "call list \<Rightarrow> move list \<Rightarrow> int option \<Rightarrow> move option \<Rightarrow> bool \<Rightarrow> nat \<Rightarrow> move list game" where
  "snapshot cs b sel lm sch t =
     \<lparr>stockfish = Some (steady_engine 30), calls = cs, board = b, selected_square = sel,
      last_ai_move = lm, current_score = 3 / 10, ai_move_scheduled = sch, timer_ms = t,
      running = True\<rparr>"

text \<open>
  The human has played f2-f3, the countdown is armed, and the human has then
  pressed on e7, which holds a piece of the side now to move.
\<close>

definition armed_state :: "move list game" where
  "armed_state =
     snapshot [SetFen fen_start, GetEvaluation, SetFen fen_f3, GetEvaluation]
       [Move 13 21 None None] (Some 52) None True 3000"

text \<open>\<open>armed_state\<close> after the undo key.\<close>

definition undone_state :: "move list game" where
  "undone_state =
     snapshot [SetFen fen_start, GetEvaluation, SetFen fen_f3, GetEvaluation,
               SetFen fen_start, GetEvaluation]
       [] (Some 52) None True 3000"

text \<open>\<open>undone_state\<close> after the timer event.\<close>

definition fired_state :: "move list game" where
  "fired_state =
     snapshot [SetFen fen_start, GetEvaluation, SetFen fen_f3, GetEvaluation,
               SetFen fen_start, GetEvaluation, SetFen fen_start, GetBestMove,
               SetFen fen_f3, GetEvaluation]
       [Move 13 21 None None] (Some 52) (Some (Move 13 21 None None)) False 0"

text \<open>\<open>armed_state\<close> after the restart key.\<close>

definition restarted_state :: "move list game" where
  "restarted_state =
     snapshot [SetFen fen_start, GetEvaluation, SetFen fen_f3, GetEvaluation,
               SetFen fen_start, GetEvaluation]
       [] None None True 3000"

text \<open>\<open>armed_state\<close> after the timer event: the engine has replied e7-e5.\<close>

definition replied_state :: "move list game" where
  "replied_state =
     snapshot [SetFen fen_start, GetEvaluation, SetFen fen_f3, GetEvaluation,
               SetFen fen_f3, GetBestMove, SetFen fen_e5, GetEvaluation]
       [Move 13 21 None None, Move 52 36 None None] (Some 52) (Some (Move 52 36 None None)) False 0"

text \<open>
  The whole line: the human has played f2-f3 and g2-g4, the engine e7-e5 and
  Qd8-h4, which mates.
\<close>

definition mated_state :: "move list game" where
  "mated_state =
     snapshot [SetFen fen_start, GetEvaluation, SetFen fen_f3, GetEvaluation,
               SetFen fen_f3, GetBestMove, SetFen fen_e5, GetEvaluation,
               SetFen fen_g4, GetEvaluation, SetFen fen_g4, GetBestMove,
               SetFen fen_mate, GetEvaluation]
       fools_mate None (Some (Move 59 31 None None)) False 0"

text \<open>\<open>mated_state\<close> after the undo key.\<close>

definition taken_back_state :: "move list game" where
  "taken_back_state =
     snapshot [SetFen fen_start, GetEvaluation, SetFen fen_f3, GetEvaluation,
               SetFen fen_f3, GetBestMove, SetFen fen_e5, GetEvaluation,
               SetFen fen_g4, GetEvaluation, SetFen fen_g4, GetBestMove,
               SetFen fen_mate, GetEvaluation, SetFen fen_g4, GetEvaluation]
       [Move 13 21 None None, Move 52 36 None None, Move 14 30 None None]
       None (Some (Move 59 31 None None)) False 0"

text \<open>Against \<open>garbled_engine\<close>: the human has played f2-f3 and the countdown is armed.\<close>

definition garbled_armed_state :: "move list game" where
  "garbled_armed_state =
     \<lparr>stockfish = Some garbled_engine,
      calls = [SetFen fen_start, GetEvaluation, SetFen fen_f3, GetEvaluation],
      board = [Move 13 21 None None], selected_square = None, last_ai_move = None,
      current_score = 0, ai_move_scheduled = True, timer_ms = 3000, running = True\<rparr>"

text \<open>The initial state without an engine, once f2 is selected.\<close>

definition picked_f2 :: "move list game" where
  "picked_f2 = (init_game fools_mate_rules None)\<lparr>selected_square := Some 13\<rparr>"

section \<open>Properties\<close>

subsection \<open>Helper facts: geometry\<close>

lemma geometry_consts: "SQUARE_SIZE = 50" "BOARD_SIZE = 400"
  by (simp_all add: SQUARE_SIZE_def BOARD_SIZE_def)

lemma corner_to_square:
  assumes "0 \<le> c" "c \<le> 7" "0 \<le> r" "r \<le> 7"
  shows "square_clicked (c * SQUARE_SIZE, r * SQUARE_SIZE) = Some ((7 - r) * 8 + c)"
  using assms by (simp add: square_clicked_def geometry_consts Let_def)

lemma square_to_corner:
  assumes "0 \<le> c" "c \<le> 7" "0 \<le> r" "r \<le> 7"
  shows "square_pixel ((7 - r) * 8 + c) = (c * SQUARE_SIZE, r * SQUARE_SIZE)"
proof -
  have m: "((7 - r) * 8 + c) mod 8 = c" using assms by presburger
  have d: "((7 - r) * 8 + c) div 8 = 7 - r" using assms by presburger
  show ?thesis unfolding square_pixel_def Let_def m d by (simp add: geometry_consts)
qed

text \<open>A press inside the window and the board area is on one of the 64 squares.\<close>

lemma square_clicked_on_board:
  assumes "square_clicked (x, y) = Some sq" and "0 \<le> x \<and> 0 \<le> y"
  shows "0 \<le> sq \<and> sq \<le> 63"
proof -
  from assms(1) have b: "x < 400" "y < 400" and sq: "sq = (7 - y div 50) * 8 + x div 50"
    by (auto simp: square_clicked_def geometry_consts Let_def split: if_splits)
  from assms(2) b have "0 \<le> x div 50" "x div 50 \<le> 7" "0 \<le> y div 50" "y div 50 \<le> 7"
    by auto
  with sq show ?thesis by simp
qed

subsection \<open>Helper facts: the evaluation\<close>


lemma clamp_score_bounds: "- 5 \<le> clamp_score r \<and> clamp_score r \<le> 5"
  by (simp add: clamp_score_def)


lemma get_evaluation_score_bounds:
  "fst (get_evaluation_score R s) = Inr v \<Longrightarrow> - 5 \<le> v \<and> v \<le> 5"
  using clamp_score_bounds
  by (auto simp: get_evaluation_score_def split: option.splits prod.splits sum.splits)

text \<open>The evaluation reads the engine and the board, nothing else.\<close>

lemma get_evaluation_score_reads:
  "stockfish t = stockfish s \<Longrightarrow> board t = board s \<Longrightarrow>
   get_evaluation_score R t = get_evaluation_score R s"
  by (simp add: get_evaluation_score_def split: option.splits)

lemma schedule_reads:
  "get_evaluation_score R (schedule_ai_move d s) = get_evaluation_score R s"
  by (rule get_evaluation_score_reads) (simp_all add: schedule_ai_move_def)

lemma update_score_Inr:
  "update_score R s = Inr s' \<longleftrightarrow>
   (\<exists>v cs. get_evaluation_score R s = (Inr v, cs) \<and> s' = s\<lparr>calls := calls s @ cs, current_score := v\<rparr>)"
  by (auto simp: update_score_def split: prod.splits sum.splits)

lemma update_score_keeps:
  assumes "update_score R s = Inr s'"
  shows "board s' = board s" "selected_square s' = selected_square s"
    "last_ai_move s' = last_ai_move s" "timer_ms s' = timer_ms s"
    "ai_move_scheduled s' = ai_move_scheduled s" "stockfish s' = stockfish s"
    "running s' = running s"
  using assms by (auto simp: update_score_Inr)

lemma update_score_recomputed:
  assumes "update_score R s = Inr s'"
  shows "fst (get_evaluation_score R s') = Inr (current_score s')"
proof -
  from assms obtain v cs where g: "get_evaluation_score R s = (Inr v, cs)"
    and s': "s' = s\<lparr>calls := calls s @ cs, current_score := v\<rparr>"
    by (auto simp: update_score_Inr)
  have "get_evaluation_score R s' = get_evaluation_score R s"
    by (rule get_evaluation_score_reads) (simp_all add: s')
  then show ?thesis by (simp add: g s')
qed

lemma update_score_total:
  "fst (get_evaluation_score R s) = Inr v \<Longrightarrow>
   \<exists>t. update_score R s = Inr t \<and> current_score t = v \<and> board t = board s"
  by (cases "get_evaluation_score R s") (auto simp: update_score_def)

subsection \<open>Helper facts: the engine's move\<close>

lemma ai_move_Inr:
  assumes "ai_move R s = Inr s'"
  shows "\<exists>cs. s' = s\<lparr>calls := calls s @ cs\<rparr> \<or>
     (\<exists>m. is_legal R (board s) m = Inr True \<and>
        s' = s\<lparr>calls := calls s @ cs, board := push R (board s) m, last_ai_move := Some m\<rparr>)"
  using assms
  by (auto simp: ai_move_def Let_def split: option.splits prod.splits sum.splits if_splits
      intro: exI[of _ "[]"])

lemma ai_move_keeps:
  assumes "ai_move R s = Inr s'"
  shows "stockfish s' = stockfish s" "selected_square s' = selected_square s"
    "current_score s' = current_score s" "ai_move_scheduled s' = ai_move_scheduled s"
    "timer_ms s' = timer_ms s" "running s' = running s"
  using ai_move_Inr [OF assms] by auto

lemma ai_move_suggestion:
  assumes "stockfish s = Some sf"
    and "set_fen_position sf (fen R (board s)) = None"
    and "get_best_move sf (fen R (board s)) = Inr (Some u)" and "u \<noteq> []"
    and "from_uci R u = Inr m" and "is_legal R (board s) m = Inr legal"
  shows "ai_move R s =
     Inr (if legal
          then s\<lparr>calls := calls s @ [SetFen (fen R (board s)), GetBestMove],
                 board := push R (board s) m, last_ai_move := Some m\<rparr>
          else s\<lparr>calls := calls s @ [SetFen (fen R (board s)), GetBestMove]\<rparr>)"
  using assms by (simp add: ai_move_def try_best_move_def Let_def)

lemma ai_move_no_suggestion:
  assumes "ai_move R s = Inr s'"
    and "stockfish s = None \<or>
       (\<exists>sf. stockfish s = Some sf \<and>
          (set_fen_position sf (fen R (board s)) \<noteq> None \<or>
           (\<exists>e. get_best_move sf (fen R (board s)) = Inl e) \<or>
           get_best_move sf (fen R (board s)) = Inr None \<or>
           get_best_move sf (fen R (board s)) = Inr (Some [])))"
  shows "board s' = board s \<and> last_ai_move s' = last_ai_move s"
  using assms
  by (auto simp: ai_move_def try_best_move_def Let_def split: option.splits sum.splits if_splits)

subsection \<open>Helper facts: the handlers\<close>

lemma on_timer_over:
  "is_game_over R (board s) \<Longrightarrow>
   handle_event R s AI_MOVE_EVENT = Inr (s\<lparr>timer_ms := 0, ai_move_scheduled := False\<rparr>)"
  by (simp add: handle_event_def on_timer_def Let_def)

lemma on_timer_playing:
  "\<not> is_game_over R (board s) \<Longrightarrow>
   handle_event R s AI_MOVE_EVENT =
     (case ai_move R (s\<lparr>timer_ms := 0, ai_move_scheduled := False\<rparr>) of
        Inl e \<Rightarrow> Inl e | Inr s2 \<Rightarrow> update_score R s2)"
  by (simp add: handle_event_def on_timer_def Let_def)

lemma undo_result:
  "stack_len R (board s) \<ge> 1 \<Longrightarrow>
   handle_event R s (KEYDOWN K_u) = update_score R (s\<lparr>board := pop R (board s)\<rparr>)"
  by (simp add: handle_event_def on_key_def)

lemma restart_result:
  "handle_event R s (KEYDOWN K_r) =
     update_score R (s\<lparr>board := start R, selected_square := None, last_ai_move := None\<rparr>)"
  by (simp add: handle_event_def on_key_def K_u_def K_r_def)

lemma press_over:
  "is_game_over R (board s) \<Longrightarrow> handle_event R s (MOUSEBUTTONDOWN x y) = Inr s"
  by (simp add: handle_event_def)

lemma on_mouse_Inr:
  assumes "on_mouse R s x y = Inr s'"
  shows "s' = s \<or> (\<exists>sq. s' = s\<lparr>selected_square := sq\<rparr>) \<or>
     (\<exists>m t. update_score R (s\<lparr>board := push R (board s) m, selected_square := None\<rparr>) = Inr t \<and>
        (s' = t \<or> s' = schedule_ai_move 3000 t))"
  using assms
  by (auto simp: on_mouse_def Let_def split: option.splits if_splits sum.splits)

lemma suggestion_on_timer:
  assumes "\<not> is_game_over R (board s)" and "handle_event R s AI_MOVE_EVENT = Inr s'"
    and "stockfish s = Some sf" and "set_fen_position sf (fen R (board s)) = None"
    and "get_best_move sf (fen R (board s)) = Inr (Some u)" and "u \<noteq> []"
    and "from_uci R u = Inr m" and "is_legal R (board s) m = Inr legal"
  shows "timer_ms s' = 0"
    and "legal \<Longrightarrow> board s' = push R (board s) m"
    and "legal \<Longrightarrow> last_ai_move s' = Some m"
    and "\<not> legal \<Longrightarrow> board s' = board s"
    and "\<not> legal \<Longrightarrow> last_ai_move s' = last_ai_move s"
proof -
  let ?s1 = "s\<lparr>timer_ms := 0, ai_move_scheduled := False\<rparr>"
  from assms(1,2) obtain s2 where ai: "ai_move R ?s1 = Inr s2" and up: "update_score R s2 = Inr s'"
    by (auto simp: on_timer_playing split: sum.splits)
  from up obtain v cs where s': "s' = s2\<lparr>calls := calls s2 @ cs, current_score := v\<rparr>"
    by (auto simp: update_score_Inr)
  have "ai_move R ?s1 =
       Inr (if legal
            then ?s1\<lparr>calls := calls ?s1 @ [SetFen (fen R (board ?s1)), GetBestMove],
                   board := push R (board ?s1) m, last_ai_move := Some m\<rparr>
            else ?s1\<lparr>calls := calls ?s1 @ [SetFen (fen R (board ?s1)), GetBestMove]\<rparr>)"
    using assms(3-8) by (intro ai_move_suggestion [where sf = sf and u = u]) simp_all
  with ai have s2: "s2 = (if legal
            then ?s1\<lparr>calls := calls ?s1 @ [SetFen (fen R (board ?s1)), GetBestMove],
                   board := push R (board ?s1) m, last_ai_move := Some m\<rparr>
            else ?s1\<lparr>calls := calls ?s1 @ [SetFen (fen R (board ?s1)), GetBestMove]\<rparr>)"
    by simp
  show "timer_ms s' = 0" by (simp add: s' s2)
  show "legal \<Longrightarrow> board s' = push R (board s) m" by (simp add: s' s2)
  show "legal \<Longrightarrow> last_ai_move s' = Some m" by (simp add: s' s2)
  show "\<not> legal \<Longrightarrow> board s' = board s" by (simp add: s' s2)
  show "\<not> legal \<Longrightarrow> last_ai_move s' = last_ai_move s" by (simp add: s' s2)
qed

lemma handle_event_score:
  assumes "handle_event R s ev = Inr s'"
  shows "current_score s' = current_score s \<or>
     fst (get_evaluation_score R s') = Inr (current_score s')"
proof (cases ev)
  case QUIT
  with assms show ?thesis by (auto simp: handle_event_def)
next
  case (MOUSEBUTTONDOWN x y)
  show ?thesis
  proof (cases "is_game_over R (board s)")
    case True
    with assms MOUSEBUTTONDOWN show ?thesis by (simp add: handle_event_def)
  next
    case False
    with assms MOUSEBUTTONDOWN have "on_mouse R s x y = Inr s'"
      by (simp add: handle_event_def)
    from on_mouse_Inr [OF this]
    consider "s' = s" | sq where "s' = s\<lparr>selected_square := sq\<rparr>"
      | m t where "update_score R (s\<lparr>board := push R (board s) m, selected_square := None\<rparr>) = Inr t"
          "s' = t \<or> s' = schedule_ai_move 3000 t"
      by blast
    then show ?thesis
    proof cases
      case 1
      then show ?thesis by simp
    next
      case 2
      then show ?thesis by simp
    next
      case 3
      from 3(1) have g: "fst (get_evaluation_score R t) = Inr (current_score t)"
        by (rule update_score_recomputed)
      from 3(2) have "get_evaluation_score R s' = get_evaluation_score R t"
        and "current_score s' = current_score t"
        by (auto simp: schedule_reads) (simp add: schedule_ai_move_def)
      with g show ?thesis by simp
    qed
  qed
next
  case (KEYDOWN k)
  with assms show ?thesis
    using update_score_recomputed [of R]
    by (auto simp: handle_event_def on_key_def split: if_splits)
next
  case AI_MOVE_EVENT
  with assms show ?thesis
    using update_score_recomputed [of R]
    by (auto simp: handle_event_def on_timer_def Let_def split: if_splits sum.splits)
next
  case OTHER
  with assms show ?thesis by (simp add: handle_event_def)
qed

lemma handle_event_score_bounds:
  assumes "handle_event R s ev = Inr s'" and "- 5 \<le> current_score s \<and> current_score s \<le> 5"
  shows "- 5 \<le> current_score s' \<and> current_score s' \<le> 5"
  using handle_event_score [OF assms(1)] assms(2) get_evaluation_score_bounds [of R s']
  by auto

lemma reachable_score_bounds:
  "reachable R s \<Longrightarrow> - 5 \<le> current_score s \<and> current_score s \<le> 5"
proof (induction rule: reachable.induct)
  case (enter sf s)
  then have "fst (get_evaluation_score R s) = Inr (current_score s)"
    by (rule update_score_recomputed)
  then show ?case by (rule get_evaluation_score_bounds)
next
  case (step s ev s')
  then show ?case using handle_event_score_bounds by blast
next
  case (engine s a a')
  then show ?case by simp
qed

lemma handle_event_board:
  assumes "handle_event R s ev = Inr s'"
  shows "board s' = board s \<or> board s' = start R \<or>
     (stack_len R (board s) \<ge> 1 \<and> board s' = pop R (board s)) \<or>
     (\<not> is_game_over R (board s) \<and> (\<exists>m. board s' = push R (board s) m))"
proof (cases ev)
  case QUIT
  with assms show ?thesis by (auto simp: handle_event_def)
next
  case (MOUSEBUTTONDOWN x y)
  show ?thesis
  proof (cases "is_game_over R (board s)")
    case True
    with assms MOUSEBUTTONDOWN show ?thesis by (simp add: handle_event_def)
  next
    case False
    with assms MOUSEBUTTONDOWN have "on_mouse R s x y = Inr s'"
      by (simp add: handle_event_def)
    from on_mouse_Inr [OF this] False show ?thesis
      by (auto simp: schedule_ai_move_def dest!: update_score_keeps(1))
  qed
next
  case (KEYDOWN k)
  with assms show ?thesis
    by (auto simp: handle_event_def on_key_def split: if_splits dest!: update_score_keeps(1))
next
  case AI_MOVE_EVENT
  show ?thesis
  proof (cases "is_game_over R (board s)")
    case True
    with assms AI_MOVE_EVENT show ?thesis by (auto simp: on_timer_over)
  next
    case False
    with assms AI_MOVE_EVENT obtain s2
      where ai: "ai_move R (s\<lparr>timer_ms := 0, ai_move_scheduled := False\<rparr>) = Inr s2"
        and up: "update_score R s2 = Inr s'"
      by (auto simp: on_timer_playing split: sum.splits)
    from ai_move_Inr [OF ai] update_score_keeps(1) [OF up] False show ?thesis
      by auto
  qed
next
  case OTHER
  with assms show ?thesis by (simp add: handle_event_def)
qed

lemma reachable_playable_below:
  assumes "stack_laws R"
  shows "reachable R s \<Longrightarrow> playable_below R (board s) (stack_len R (board s))"
proof (induction rule: reachable.induct)
  case (enter sf s)
  then have "board s = start R"
    by (auto simp: update_score_Inr init_game_def)
  with assms show ?case by (simp add: stack_laws_def)
next
  case (step s ev s')
  let ?b = "board s"
  from handle_event_board [OF step.hyps(2)]
  consider "board s' = ?b" | "board s' = start R"
    | "stack_len R ?b \<ge> 1" "board s' = pop R ?b"
    | m where "\<not> is_game_over R ?b" "board s' = push R ?b m"
    by blast
  then show ?case
  proof cases
    case 1
    with step.IH show ?thesis by simp
  next
    case 2
    with assms show ?thesis by (simp add: stack_laws_def)
  next
    case 3
    then obtain n where n: "stack_len R ?b = Suc n" by (cases "stack_len R ?b") simp_all
    with assms have "stack_len R (pop R ?b) = n" by (simp add: stack_laws_def)
    with step.IH n 3 show ?thesis by simp
  next
    case 4
    with assms have "stack_len R (board s') = Suc (stack_len R ?b)" "pop R (board s') = ?b"
      by (simp_all add: stack_laws_def)
    with step.IH 4 show ?thesis by simp
  qed
next
  case (engine s a a')
  then show ?case by simp
qed


subsection \<open>Helper facts: runs of the loop are reachable\<close>

lemma run_events_reachable:
  "reachable R s \<Longrightarrow> run_events R s evs = Inr s' \<Longrightarrow> reachable R s'"
proof (induction evs arbitrary: s)
  case Nil
  then show ?case by simp
next
  case (Cons ev evs)
  from Cons.prems(2) obtain t where t: "handle_event R s ev = Inr t"
    and r: "run_events R t evs = Inr s'"
    by (auto split: sum.splits)
  from Cons.prems(1) t have "reachable R t" by (rule reachable.step)
  then show ?case using r by (rule Cons.IH)
qed

lemma run_loop_reachable:
  "reachable R s \<Longrightarrow> run_loop R s evss = Inr s' \<Longrightarrow> reachable R s'"
proof (induction evss arbitrary: s)
  case Nil
  then show ?case by simp
next
  case (Cons evs evss)
  show ?case
  proof (cases "running s")
    case True
    with Cons.prems(2) obtain t where t: "run_events R s evs = Inr t"
      and r: "run_loop R t evss = Inr s'"
      by (auto split: sum.splits)
    from Cons.prems(1) t have "reachable R t" by (rule run_events_reachable)
    then show ?thesis using r by (rule Cons.IH)
  next
    case False
    with Cons.prems show ?thesis by simp
  qed
qed

lemma run_reachable: "run R sf evss = Inr s \<Longrightarrow> reachable R s"
proof -
  assume a: "run R sf evss = Inr s"
  then obtain t where t: "update_score R (init_game R sf) = Inr t"
    and r: "run_loop R t evss = Inr s"
    by (auto simp: run_def split: sum.splits)
  from t have "reachable R t" by (rule reachable.enter)
  then show ?thesis using r by (rule run_loop_reachable)
qed

subsection \<open>Helper facts: the loop evaluated along Fool's mate\<close>

lemmas loop_defs = handle_event_def on_mouse_def on_key_def on_timer_def ai_move_def
  update_score_def get_evaluation_score_def try_evaluation_def try_best_move_def raw_score_def
  getitem_def clamp_score_def schedule_ai_move_def square_clicked_def SQUARE_SIZE_def BOARD_SIZE_def
  K_u_def K_r_def init_game_def run_def float_range_def

lemmas game_defs = fools_mate_rules_def fools_mate_def steady_engine_def snapshot_def
  start_piece_def relocate_def fen_start_def fen_f3_def fen_e5_def fen_g4_def fen_mate_def

lemma run_armed:
  "run fools_mate_rules (Some (steady_engine 30))
     [[MOUSEBUTTONDOWN 260 310], [MOUSEBUTTONDOWN 260 260], [MOUSEBUTTONDOWN 210 60]] =
   Inr armed_state"
  by (simp add: loop_defs game_defs armed_state_def)

lemma undo_armed: "handle_event fools_mate_rules armed_state (KEYDOWN K_u) = Inr undone_state"
  by (simp add: loop_defs game_defs armed_state_def undone_state_def)

lemma fire_undone: "handle_event fools_mate_rules undone_state AI_MOVE_EVENT = Inr fired_state"
  by (simp add: loop_defs game_defs undone_state_def fired_state_def)

lemma restart_armed: "handle_event fools_mate_rules armed_state (KEYDOWN K_r) = Inr restarted_state"
  by (simp add: loop_defs game_defs armed_state_def restarted_state_def)

lemma fire_armed: "handle_event fools_mate_rules armed_state AI_MOVE_EVENT = Inr replied_state"
  by (simp add: loop_defs game_defs armed_state_def replied_state_def)

lemma run_mated:
  "run fools_mate_rules (Some (steady_engine 30))
     [[MOUSEBUTTONDOWN 260 310], [MOUSEBUTTONDOWN 260 260], [AI_MOVE_EVENT],
      [MOUSEBUTTONDOWN 310 310], [MOUSEBUTTONDOWN 310 210], [AI_MOVE_EVENT]] =
   Inr mated_state"
  by (simp add: loop_defs game_defs mated_state_def)

lemma undo_mated: "handle_event fools_mate_rules mated_state (KEYDOWN K_u) = Inr taken_back_state"
  by (simp add: loop_defs game_defs mated_state_def taken_back_state_def)

lemma reachable_armed: "reachable fools_mate_rules armed_state"
  using run_armed by (rule run_reachable)

lemma reachable_mated: "reachable fools_mate_rules mated_state"
  using run_mated by (rule run_reachable)

lemma fools_mate_stack_laws: "stack_laws fools_mate_rules"
  by (simp add: stack_laws_def fools_mate_rules_def)

section \<open>The claims\<close>

subsection \<open>Square geometry\<close>

text \<open>
  C5.  For every square \<open>s\<close> from 0 to 63, the click mapping sends the top-left
  pixel of \<open>s\<close> (column \<open>s mod 8\<close>, row \<open>7 - s div 8\<close>, each times the square
  size) back to \<open>s\<close>.  In the other direction, every top-left corner of the 8 by 8
  grid is sent to a square from 0 to 63 whose top-left pixel is that corner: on
  squares and their top-left pixels the two mappings are inverses of each other.
\<close>

theorem square_pixel_round_trip:
  "(0 \<le> s \<and> s \<le> 63 \<longrightarrow>
      square_pixel s = (s mod 8 * SQUARE_SIZE, (7 - s div 8) * SQUARE_SIZE) \<and>
      square_clicked (square_pixel s) = Some s) \<and>
   (0 \<le> c \<and> c \<le> 7 \<and> 0 \<le> r \<and> r \<le> 7 \<longrightarrow>
      (\<exists>q. square_clicked (c * SQUARE_SIZE, r * SQUARE_SIZE) = Some q \<and> 0 \<le> q \<and> q \<le> 63 \<and>
           square_pixel q = (c * SQUARE_SIZE, r * SQUARE_SIZE)))"
proof (intro conjI impI)
  assume s: "0 \<le> s \<and> s \<le> 63"
  show "square_pixel s = (s mod 8 * SQUARE_SIZE, (7 - s div 8) * SQUARE_SIZE)"
    by (simp add: square_pixel_def Let_def)
  have col: "0 \<le> s mod 8" "s mod 8 \<le> 7" by simp_all
  have row: "0 \<le> s div 8" "s div 8 \<le> 7" using s by auto
  have x: "s mod 8 * 50 < 400" using col by simp
  have y: "(7 - s div 8) * 50 < 400" using row by simp
  have "s mod 8 * 50 div 50 = s mod 8" by simp
  moreover have "(7 - s div 8) * 50 div 50 = 7 - s div 8" by simp
  ultimately show "square_clicked (square_pixel s) = Some s"
    using x y by (simp add: square_clicked_def square_pixel_def geometry_consts Let_def)
next
  assume cr: "0 \<le> c \<and> c \<le> 7 \<and> 0 \<le> r \<and> r \<le> 7"
  have "square_clicked (c * SQUARE_SIZE, r * SQUARE_SIZE) = Some ((7 - r) * 8 + c)"
    using cr by (intro corner_to_square) simp_all
  moreover have "square_pixel ((7 - r) * 8 + c) = (c * SQUARE_SIZE, r * SQUARE_SIZE)"
    using cr by (intro square_to_corner) simp_all
  moreover have "0 \<le> (7 - r) * 8 + c" "(7 - r) * 8 + c \<le> 63"
    using cr by simp_all
  ultimately show "\<exists>q. square_clicked (c * SQUARE_SIZE, r * SQUARE_SIZE) = Some q \<and> 0 \<le> q \<and> q \<le> 63 \<and>
      square_pixel q = (c * SQUARE_SIZE, r * SQUARE_SIZE)"
    by blast
qed

text \<open>At square 12 (e2), whose top-left pixel is (200, 300), and at the corner of column 3, row 2.\<close>

theorem square_pixel_round_trip_witness:
  "(0 \<le> (12::int) \<and> (12::int) \<le> 63) \<and> square_pixel 12 = (200, 300) \<and>
   square_clicked (square_pixel 12) = Some 12 \<and>
   (\<exists>q. square_clicked (150, 100) = Some q \<and> 0 \<le> q \<and> q \<le> 63 \<and> square_pixel q = (150, 100))"
  using square_pixel_round_trip [of 12 3 2] by (simp add: geometry_consts square_pixel_def)

subsection \<open>The evaluation score\<close>




text \<open>
  C3 fails on the code: both call sites read the engine's answer outside their
  \<^verbatim>\<open>try\<close>.  When \<^verbatim>\<open>get_evaluation()\<close> returns the empty dictionary,
  \<^verbatim>\<open>evaluation["type"]\<close> (line 94) raises \<^verbatim>\<open>KeyError\<close>; the exception leaves
  \<^verbatim>\<open>get_evaluation_score\<close> and every handler that recomputes the score, and with it
  \<^verbatim>\<open>run\<close>: here at the first computation of the score and at the restart key.
  When \<^verbatim>\<open>get_best_move()\<close> returns a string that is not a move,
  \<^verbatim>\<open>chess.Move.from_uci\<close> (line 130) raises, and the exception leaves \<^verbatim>\<open>ai_move\<close>
  and the handler of the timer event.
\<close>

theorem malformed_answer_ends_the_loop:
  "fst (get_evaluation_score fools_mate_rules (init_game fools_mate_rules (Some scoreless_engine))) = Inl KeyError \<and>
   run fools_mate_rules (Some scoreless_engine) [] = Inl KeyError \<and>
   handle_event fools_mate_rules (init_game fools_mate_rules (Some scoreless_engine)) (KEYDOWN K_r) = Inl KeyError \<and>
   ai_move fools_mate_rules (init_game fools_mate_rules (Some garbled_engine)) = Inl InvalidMoveError \<and>
   handle_event fools_mate_rules (init_game fools_mate_rules (Some garbled_engine)) AI_MOVE_EVENT =
     Inl InvalidMoveError"
  by (simp add: loop_defs game_defs scoreless_engine_def garbled_engine_def)

subsection \<open>Pointer presses\<close>

text \<open>
  C8.  A press inside the board area that is processed, the gate of line 213
  being passed because the game is not over, while no square is selected: when
  the clicked square holds a piece of the side to move, that square becomes the
  selected square and nothing else changes; otherwise, on an empty square or a
  piece of the other side, the whole state is unchanged.  A press whose
  coordinates are not negative is on one of the squares 0 to 63.  Should the
  library raise on the square, the exception leaves the handler.
\<close>

theorem first_press_selects_own_piece:
  assumes "\<not> is_game_over R (board s)"
    and "selected_square s = None"
    and "square_clicked (x, y) = Some sq"
  shows "(piece_at R (board s) sq = Inr po \<longrightarrow>
        handle_event R s (MOUSEBUTTONDOWN x y) =
          Inr (if \<exists>p. po = Some p \<and> color p = turn R (board s)
               then s\<lparr>selected_square := Some sq\<rparr> else s)) \<and>
     (piece_at R (board s) sq = Inl e \<longrightarrow> handle_event R s (MOUSEBUTTONDOWN x y) = Inl e) \<and>
     (0 \<le> x \<and> 0 \<le> y \<longrightarrow> 0 \<le> sq \<and> sq \<le> 63)"
proof (intro conjI impI)
  assume "piece_at R (board s) sq = Inr po"
  with assms show "handle_event R s (MOUSEBUTTONDOWN x y) =
      Inr (if \<exists>p. po = Some p \<and> color p = turn R (board s)
           then s\<lparr>selected_square := Some sq\<rparr> else s)"
    by (auto simp: handle_event_def on_mouse_def split: option.splits)
next
  assume "piece_at R (board s) sq = Inl e"
  with assms show "handle_event R s (MOUSEBUTTONDOWN x y) = Inl e"
    by (simp add: handle_event_def on_mouse_def)
next
  assume "0 \<le> x \<and> 0 \<le> y"
  with assms(3) show "0 \<le> sq" "sq \<le> 63"
    using square_clicked_on_board by blast+
qed

text \<open>
  From the initial position: a press on f2 (White's pawn, square 13) selects it; a
  press on e7 (Black's pawn, square 52) and a press on the empty f3 (square 21)
  change nothing.
\<close>

theorem first_press_selects_own_piece_witness:
  "\<not> is_game_over fools_mate_rules (board (init_game fools_mate_rules None)) \<and>
   selected_square (init_game fools_mate_rules None) = None \<and>
   square_clicked (260, 310) = Some 13 \<and>
   handle_event fools_mate_rules (init_game fools_mate_rules None) (MOUSEBUTTONDOWN 260 310) =
     Inr picked_f2 \<and>
   handle_event fools_mate_rules (init_game fools_mate_rules None) (MOUSEBUTTONDOWN 210 60) =
     Inr (init_game fools_mate_rules None) \<and>
   handle_event fools_mate_rules (init_game fools_mate_rules None) (MOUSEBUTTONDOWN 260 260) =
     Inr (init_game fools_mate_rules None)"
proof -
  let ?R = fools_mate_rules
  let ?s = "init_game ?R None"
  have h1: "\<not> is_game_over ?R (board ?s)"
    by (simp add: init_game_def game_defs)
  have h2: "selected_square ?s = None"
    by (simp add: init_game_def)
  have a: "square_clicked (260, 310) = Some 13" and b: "square_clicked (210, 60) = Some 52"
    and c: "square_clicked (260, 260) = Some 21"
    by (simp_all add: square_clicked_def geometry_consts)
  have pa: "piece_at ?R (board ?s) 13 = Inr (Some (Piece 1 True))"
    and pb: "piece_at ?R (board ?s) 52 = Inr (Some (Piece 1 False))"
    and pc: "piece_at ?R (board ?s) 21 = Inr None"
    and t: "turn ?R (board ?s) = True"
    by (simp_all add: init_game_def game_defs)
  have "handle_event ?R ?s (MOUSEBUTTONDOWN 260 310) = Inr picked_f2"
    using first_press_selects_own_piece [OF h1 h2 a, of "Some (Piece 1 True)"] pa t
    by (simp add: picked_f2_def)
  moreover have "handle_event ?R ?s (MOUSEBUTTONDOWN 210 60) = Inr ?s"
    using first_press_selects_own_piece [OF h1 h2 b, of "Some (Piece 1 False)"] pb t by simp
  moreover have "handle_event ?R ?s (MOUSEBUTTONDOWN 260 260) = Inr ?s"
    using first_press_selects_own_piece [OF h1 h2 c, of None] pc by simp
  ultimately show ?thesis using h1 h2 a by simp
qed

text \<open>
  C6.  A press inside the board area that is processed, the gate of line 213
  being passed because the game is not over, while a square is selected, the move
  from the selected square to the clicked square not being in the legal-move set:
  the selection is cleared and nothing else changes, the board in particular; the
  next press is again read as a selection.  A press whose coordinates are not
  negative is on one of the squares 0 to 63.  Should the library raise on the
  move, the exception leaves the handler.
\<close>

theorem illegal_move_rejected:
  assumes "\<not> is_game_over R (board s)"
    and "selected_square s = Some sel"
    and "square_clicked (x, y) = Some sq"
  shows "(is_legal R (board s) (Move sel sq None None) = Inr False \<longrightarrow>
        handle_event R s (MOUSEBUTTONDOWN x y) = Inr (s\<lparr>selected_square := None\<rparr>)) \<and>
     (is_legal R (board s) (Move sel sq None None) = Inl e \<longrightarrow>
        handle_event R s (MOUSEBUTTONDOWN x y) = Inl e) \<and>
     (0 \<le> x \<and> 0 \<le> y \<longrightarrow> 0 \<le> sq \<and> sq \<le> 63)"
proof (intro conjI impI)
  assume "is_legal R (board s) (Move sel sq None None) = Inr False"
  with assms show "handle_event R s (MOUSEBUTTONDOWN x y) = Inr (s\<lparr>selected_square := None\<rparr>)"
    by (simp add: handle_event_def on_mouse_def Let_def)
next
  assume "is_legal R (board s) (Move sel sq None None) = Inl e"
  with assms show "handle_event R s (MOUSEBUTTONDOWN x y) = Inl e"
    by (simp add: handle_event_def on_mouse_def Let_def)
next
  assume "0 \<le> x \<and> 0 \<le> y"
  with assms(3) show "0 \<le> sq" "sq \<le> 63"
    using square_clicked_on_board by blast+
qed

text \<open>
  With f2 selected in the initial position, a press on b4 (square 25): the pawn
  cannot go there, the selection is cleared and the initial state is back.
\<close>

theorem illegal_move_rejected_witness:
  "\<not> is_game_over fools_mate_rules (board picked_f2) \<and>
   selected_square picked_f2 = Some 13 \<and>
   square_clicked (60, 210) = Some 25 \<and>
   is_legal fools_mate_rules (board picked_f2) (Move 13 25 None None) = Inr False \<and>
   handle_event fools_mate_rules picked_f2 (MOUSEBUTTONDOWN 60 210) =
     Inr (init_game fools_mate_rules None)"
proof -
  let ?R = fools_mate_rules
  have h1: "\<not> is_game_over ?R (board picked_f2)"
    by (simp add: picked_f2_def init_game_def game_defs)
  have h2: "selected_square picked_f2 = Some 13"
    by (simp add: picked_f2_def)
  have h3: "square_clicked (60, 210) = Some 25"
    by (simp add: square_clicked_def geometry_consts)
  have h4: "is_legal ?R (board picked_f2) (Move 13 25 None None) = Inr False"
    by (simp add: picked_f2_def init_game_def game_defs)
  have "picked_f2\<lparr>selected_square := None\<rparr> = init_game ?R None"
    by (simp add: picked_f2_def init_game_def)
  with illegal_move_rejected [OF h1 h2 h3] h1 h2 h3 h4 show ?thesis by simp
qed

subsection \<open>The timer event\<close>

text \<open>
  C7 fails on the code, by the defect of C3.  The handler of the timer event does
  disarm the timer, does nothing more on a finished game, and applies and records
  a suggested move only when it is legal.  But a suggestion that is no move at all
  is not passed over: \<^verbatim>\<open>chess.Move.from_uci\<close> (line 130) is outside the \<^verbatim>\<open>try\<close>,
  so it raises and the exception leaves the handler and \<^verbatim>\<open>run\<close>, instead of the
  board being left as it was and the turn passing back to the human.  Here the
  human plays f2-f3, which arms the countdown on a game that is not over, and the
  engine answers the timer event with the string zz.
\<close>

theorem garbled_suggestion_ends_the_loop:
  "run fools_mate_rules (Some garbled_engine)
     [[MOUSEBUTTONDOWN 260 310], [MOUSEBUTTONDOWN 260 260]] = Inr garbled_armed_state \<and>
   \<not> is_game_over fools_mate_rules (board garbled_armed_state) \<and>
   timer_ms garbled_armed_state = 3000 \<and>
   get_best_move garbled_engine (fen fools_mate_rules (board garbled_armed_state)) = Inr (Some ''zz'') \<and>
   from_uci fools_mate_rules ''zz'' = Inl InvalidMoveError \<and>
   handle_event fools_mate_rules garbled_armed_state AI_MOVE_EVENT = Inl InvalidMoveError \<and>
   run fools_mate_rules (Some garbled_engine)
     [[MOUSEBUTTONDOWN 260 310], [MOUSEBUTTONDOWN 260 260], [AI_MOVE_EVENT]] = Inl InvalidMoveError"
  by (simp add: loop_defs game_defs garbled_engine_def garbled_armed_state_def)

subsection \<open>The undo and restart keys\<close>

text \<open>
  C1, as the code has it.  With at least one move on the stack, the undo key
  pops the most recent move and recomputes the evaluation.  It leaves the
  selected square, the last engine move, the scheduled flag and the timer as they
  were: an armed countdown stays armed.  When the timer event then arrives on a
  game that is not over and the engine suggests a legal move, the timer is
  disarmed and that move is applied to the position the undo produced.  The
  handler returns whenever the evaluation of the popped position does.
\<close>

theorem undo_pops_and_keeps_countdown:
  "(stack_len R (board s) \<ge> 1 \<and> handle_event R s (KEYDOWN K_u) = Inr s' \<longrightarrow>
      board s' = pop R (board s) \<and>
      fst (get_evaluation_score R s') = Inr (current_score s') \<and>
      selected_square s' = selected_square s \<and>
      last_ai_move s' = last_ai_move s \<and>
      timer_ms s' = timer_ms s \<and>
      ai_move_scheduled s' = ai_move_scheduled s \<and>
      (\<not> is_game_over R (board s') \<and> handle_event R s' AI_MOVE_EVENT = Inr s'' \<and>
       stockfish s' = Some sf \<and> set_fen_position sf (fen R (board s')) = None \<and>
       get_best_move sf (fen R (board s')) = Inr (Some u) \<and> u \<noteq> [] \<and>
       from_uci R u = Inr m \<and> is_legal R (board s') m = Inr True \<longrightarrow>
         timer_ms s'' = 0 \<and> board s'' = push R (board s') m \<and> last_ai_move s'' = Some m)) \<and>
   (stack_len R (board s) \<ge> 1 \<and>
      fst (get_evaluation_score R (s\<lparr>board := pop R (board s)\<rparr>)) = Inr v \<longrightarrow>
      (\<exists>t. handle_event R s (KEYDOWN K_u) = Inr t \<and> current_score t = v))"
proof (intro conjI impI)
  assume a: "stack_len R (board s) \<ge> 1 \<and> handle_event R s (KEYDOWN K_u) = Inr s'"
  then have e: "handle_event R s (KEYDOWN K_u) = update_score R (s\<lparr>board := pop R (board s)\<rparr>)"
    by (intro undo_result) simp
  have up: "update_score R (s\<lparr>board := pop R (board s)\<rparr>) = Inr s'"
    using a unfolding e by simp
  show "board s' = pop R (board s)" "selected_square s' = selected_square s"
    "last_ai_move s' = last_ai_move s" "timer_ms s' = timer_ms s"
    "ai_move_scheduled s' = ai_move_scheduled s"
    using update_score_keeps [OF up] by simp_all
  show "fst (get_evaluation_score R s') = Inr (current_score s')"
    using up by (rule update_score_recomputed)
  assume b: "\<not> is_game_over R (board s') \<and> handle_event R s' AI_MOVE_EVENT = Inr s'' \<and>
       stockfish s' = Some sf \<and> set_fen_position sf (fen R (board s')) = None \<and>
       get_best_move sf (fen R (board s')) = Inr (Some u) \<and> u \<noteq> [] \<and>
       from_uci R u = Inr m \<and> is_legal R (board s') m = Inr True"
  from b have b1: "\<not> is_game_over R (board s')"
    and b2: "handle_event R s' AI_MOVE_EVENT = Inr s''"
    and b3: "stockfish s' = Some sf"
    and b4: "set_fen_position sf (fen R (board s')) = None"
    and b5: "get_best_move sf (fen R (board s')) = Inr (Some u)"
    and b6: "u \<noteq> []" and b7: "from_uci R u = Inr m"
    and b8: "is_legal R (board s') m = Inr True"
    by blast+
  note fired = suggestion_on_timer [OF b1 b2 b3 b4 b5 b6 b7 b8]
  show "timer_ms s'' = 0"
    by (rule fired(1))
  show "board s'' = push R (board s') m"
    using fired(2) by simp
  show "last_ai_move s'' = Some m"
    using fired(3) by simp
next
  assume "stack_len R (board s) \<ge> 1 \<and>
      fst (get_evaluation_score R (s\<lparr>board := pop R (board s)\<rparr>)) = Inr v"
  then have e: "handle_event R s (KEYDOWN K_u) = update_score R (s\<lparr>board := pop R (board s)\<rparr>)"
    and g: "fst (get_evaluation_score R (s\<lparr>board := pop R (board s)\<rparr>)) = Inr v"
    by (simp_all add: undo_result)
  from update_score_total [OF g] show "\<exists>t. handle_event R s (KEYDOWN K_u) = Inr t \<and> current_score t = v"
    unfolding e by blast
qed

text \<open>
  On \<open>armed_state\<close>: the undo returns to the initial position with the selection
  of e7 and the countdown of 3000 ms in place, and the timer event then applies
  the engine's f2-f3 to it.
\<close>

theorem undo_pops_and_keeps_countdown_witness:
  "stack_len fools_mate_rules (board armed_state) \<ge> 1 \<and>
   handle_event fools_mate_rules armed_state (KEYDOWN K_u) = Inr undone_state \<and>
   board undone_state = pop fools_mate_rules (board armed_state) \<and>
   selected_square undone_state = selected_square armed_state \<and>
   timer_ms undone_state = timer_ms armed_state \<and>
   ai_move_scheduled undone_state = ai_move_scheduled armed_state \<and>
   \<not> is_game_over fools_mate_rules (board undone_state) \<and>
   handle_event fools_mate_rules undone_state AI_MOVE_EVENT = Inr fired_state \<and>
   timer_ms fired_state = 0 \<and>
   board fired_state = push fools_mate_rules (board undone_state) (Move 13 21 None None) \<and>
   last_ai_move fired_state = Some (Move 13 21 None None)"
proof -
  let ?R = fools_mate_rules
  let ?m = "Move 13 21 None None"
  have l: "stack_len ?R (board armed_state) \<ge> 1"
    by (simp add: armed_state_def game_defs)
  have n: "\<not> is_game_over ?R (board undone_state)"
    by (simp add: undone_state_def game_defs)
  have sf: "stockfish undone_state = Some (steady_engine 30)"
    by (simp add: undone_state_def snapshot_def)
  have q: "set_fen_position (steady_engine 30) (fen ?R (board undone_state)) = None"
    "get_best_move (steady_engine 30) (fen ?R (board undone_state)) = Inr (Some ''f2f3'')"
    "''f2f3'' \<noteq> []" "from_uci ?R ''f2f3'' = Inr ?m" "is_legal ?R (board undone_state) ?m = Inr True"
    by (simp_all add: undone_state_def game_defs)
  have "board undone_state = pop ?R (board armed_state) \<and>
      selected_square undone_state = selected_square armed_state \<and>
      timer_ms undone_state = timer_ms armed_state \<and>
      ai_move_scheduled undone_state = ai_move_scheduled armed_state \<and>
      timer_ms fired_state = 0 \<and> board fired_state = push ?R (board undone_state) ?m \<and>
      last_ai_move fired_state = Some ?m"
    using undo_pops_and_keeps_countdown
      [of ?R armed_state undone_state fired_state "steady_engine 30" "''f2f3''" ?m]
      l undo_armed n fire_undone sf q by blast
  with l undo_armed n fire_undone show ?thesis by blast
qed

text \<open>
  C1 as stated fails.  The human plays f2-f3, which arms the countdown, presses
  on e7 and then presses undo: the selection and the countdown are still there,
  and when the timer event arrives the engine's move is applied, so the board is
  not the position the undo produced.
\<close>

theorem undo_countdown_counterexample:
  "run fools_mate_rules (Some (steady_engine 30))
     [[MOUSEBUTTONDOWN 260 310], [MOUSEBUTTONDOWN 260 260], [MOUSEBUTTONDOWN 210 60],
      [KEYDOWN K_u]] = Inr undone_state \<and>
   selected_square undone_state = Some 52 \<and>
   timer_ms undone_state = 3000 \<and>
   ai_move_scheduled undone_state = True \<and>
   board undone_state = [] \<and>
   run fools_mate_rules (Some (steady_engine 30))
     [[MOUSEBUTTONDOWN 260 310], [MOUSEBUTTONDOWN 260 260], [MOUSEBUTTONDOWN 210 60],
      [KEYDOWN K_u], [AI_MOVE_EVENT]] = Inr fired_state \<and>
   board fired_state = [Move 13 21 None None] \<and>
   board fired_state \<noteq> board undone_state"
  by (simp add: loop_defs game_defs undone_state_def fired_state_def)

text \<open>
  C2, as the code has it.  The restart key resets the board to the initial
  position, clears the selected square and the last engine move and recomputes
  the evaluation, so that the next press is read as a selection.  It leaves the
  timer and the scheduled flag as they were: a pending countdown stays pending.
  The handler returns whenever the evaluation of the initial position does.
\<close>

theorem restart_resets_and_keeps_countdown:
  "(handle_event R s (KEYDOWN K_r) = Inr s' \<longrightarrow>
      board s' = start R \<and> selected_square s' = None \<and> last_ai_move s' = None \<and>
      fst (get_evaluation_score R s') = Inr (current_score s') \<and>
      timer_ms s' = timer_ms s \<and> ai_move_scheduled s' = ai_move_scheduled s) \<and>
   (fst (get_evaluation_score R (s\<lparr>board := start R\<rparr>)) = Inr v \<longrightarrow>
      (\<exists>t. handle_event R s (KEYDOWN K_r) = Inr t \<and> current_score t = v))"
proof (intro conjI impI)
  let ?s0 = "s\<lparr>board := start R, selected_square := None, last_ai_move := None\<rparr>"
  assume "handle_event R s (KEYDOWN K_r) = Inr s'"
  then have up: "update_score R ?s0 = Inr s'"
    unfolding restart_result by simp
  show "board s' = start R" "selected_square s' = None" "last_ai_move s' = None"
    "timer_ms s' = timer_ms s" "ai_move_scheduled s' = ai_move_scheduled s"
    using update_score_keeps [OF up] by simp_all
  show "fst (get_evaluation_score R s') = Inr (current_score s')"
    using up by (rule update_score_recomputed)
next
  let ?s0 = "s\<lparr>board := start R, selected_square := None, last_ai_move := None\<rparr>"
  assume "fst (get_evaluation_score R (s\<lparr>board := start R\<rparr>)) = Inr v"
  moreover have "get_evaluation_score R ?s0 = get_evaluation_score R (s\<lparr>board := start R\<rparr>)"
    by (rule get_evaluation_score_reads) simp_all
  ultimately have "fst (get_evaluation_score R ?s0) = Inr v" by simp
  from update_score_total [OF this]
  show "\<exists>t. handle_event R s (KEYDOWN K_r) = Inr t \<and> current_score t = v"
    unfolding restart_result by blast
qed

text \<open>On \<open>armed_state\<close>: board, selection and last engine move are reset, the countdown is not.\<close>

theorem restart_resets_and_keeps_countdown_witness:
  "handle_event fools_mate_rules armed_state (KEYDOWN K_r) = Inr restarted_state \<and>
   board restarted_state = start fools_mate_rules \<and>
   selected_square restarted_state = None \<and> last_ai_move restarted_state = None \<and>
   timer_ms restarted_state = timer_ms armed_state \<and>
   ai_move_scheduled restarted_state = ai_move_scheduled armed_state"
  using restart_resets_and_keeps_countdown [of fools_mate_rules armed_state restarted_state]
    restart_armed by blast

text \<open>
  C2 as stated fails.  The human plays f2-f3, which arms the countdown, presses
  on e7 and then presses restart: the countdown of 3000 ms is still pending.
\<close>

theorem restart_countdown_counterexample:
  "run fools_mate_rules (Some (steady_engine 30))
     [[MOUSEBUTTONDOWN 260 310], [MOUSEBUTTONDOWN 260 260], [MOUSEBUTTONDOWN 210 60],
      [KEYDOWN K_r]] = Inr restarted_state \<and>
   timer_ms restarted_state = 3000 \<and>
   ai_move_scheduled restarted_state = True"
  by (simp add: loop_defs game_defs restarted_state_def)

subsection \<open>Invariants\<close>

text \<open>
  C9.  The current score is 0 after \<^verbatim>\<open>__init__\<close> and lies between -5 and 5 in
  every reachable state of the loop.  A handler that returns either leaves the
  score as it was or leaves it equal to what \<^verbatim>\<open>get_evaluation_score\<close> returns for
  the state it produces, and every score that function returns lies between -5
  and 5.
\<close>

theorem score_stays_in_range:
  "current_score (init_game R sf) = 0 \<and>
   (reachable R s \<longrightarrow> - 5 \<le> current_score s \<and> current_score s \<le> 5) \<and>
   (handle_event R t ev = Inr t' \<longrightarrow>
      current_score t' = current_score t \<or>
      fst (get_evaluation_score R t') = Inr (current_score t')) \<and>
   (fst (get_evaluation_score R t) = Inr x \<longrightarrow> - 5 \<le> x \<and> x \<le> 5)"
proof (intro conjI impI)
  show "current_score (init_game R sf) = 0"
    by (simp add: init_game_def)
next
  assume "reachable R s"
  then show "- 5 \<le> current_score s" "current_score s \<le> 5"
    using reachable_score_bounds by blast+
next
  assume "handle_event R t ev = Inr t'"
  then show "current_score t' = current_score t \<or>
      fst (get_evaluation_score R t') = Inr (current_score t')"
    by (rule handle_event_score)
next
  assume "fst (get_evaluation_score R t) = Inr x"
  then show "- 5 \<le> x" "x \<le> 5"
    using get_evaluation_score_bounds by blast+
qed

text \<open>
  \<open>armed_state\<close> is reached by three presses; the timer event takes it to
  \<open>replied_state\<close>, whose score of 0.3 is the evaluation of that state.
\<close>

theorem score_stays_in_range_witness:
  "reachable fools_mate_rules armed_state \<and>
   - 5 \<le> current_score armed_state \<and> current_score armed_state \<le> 5 \<and>
   handle_event fools_mate_rules armed_state AI_MOVE_EVENT = Inr replied_state \<and>
   fst (get_evaluation_score fools_mate_rules replied_state) = Inr (current_score replied_state) \<and>
   - 5 \<le> current_score replied_state \<and> current_score replied_state \<le> 5"
proof -
  let ?R = fools_mate_rules
  note th = score_stays_in_range [of ?R None armed_state armed_state AI_MOVE_EVENT replied_state]
  have e: "fst (get_evaluation_score ?R replied_state) = Inr (current_score replied_state)"
    by (simp add: replied_state_def snapshot_def get_evaluation_score_def try_evaluation_def
        raw_score_def getitem_def clamp_score_def steady_engine_def float_range_def)
  have a: "- 5 \<le> current_score armed_state \<and> current_score armed_state \<le> 5"
    using th reachable_armed by blast
  have b: "- 5 \<le> current_score replied_state \<and> current_score replied_state \<le> 5"
    using score_stays_in_range [of ?R None armed_state replied_state AI_MOVE_EVENT replied_state
        "current_score replied_state"] e by blast
  from reachable_armed a fire_armed e b show ?thesis by blast
qed

text \<open>
  C10.  Assume the library's move stack behaves as a stack (\<open>stack_laws\<close>).  In a
  reachable state whose game is over, a pointer press leaves the state unchanged,
  while the keys still act.  With at least one move on the stack, the position
  under the most recent move is not a finished game, and the undo key, whenever
  the evaluation of that position returns, pops the move (the move that ended
  the game included) and so leaves a playable board.  The restart key, whenever
  the evaluation of the initial position returns, resets the board.
\<close>

theorem game_over_keys_still_act:
  assumes "stack_laws R" and "reachable R s" and "is_game_over R (board s)"
  shows "handle_event R s (MOUSEBUTTONDOWN x y) = Inr s \<and>
     (stack_len R (board s) \<ge> 1 \<longrightarrow>
        \<not> is_game_over R (pop R (board s)) \<and>
        (handle_event R s (KEYDOWN K_u) = Inr s' \<longrightarrow>
           board s' = pop R (board s) \<and> \<not> is_game_over R (board s')) \<and>
        (fst (get_evaluation_score R (s\<lparr>board := pop R (board s)\<rparr>)) = Inr v \<longrightarrow>
           (\<exists>t. handle_event R s (KEYDOWN K_u) = Inr t \<and> board t = pop R (board s)))) \<and>
     (handle_event R s (KEYDOWN K_r) = Inr s'' \<longrightarrow> board s'' = start R) \<and>
     (fst (get_evaluation_score R (s\<lparr>board := start R\<rparr>)) = Inr w \<longrightarrow>
        (\<exists>t. handle_event R s (KEYDOWN K_r) = Inr t \<and> board t = start R))"
proof (intro conjI impI)
  show "handle_event R s (MOUSEBUTTONDOWN x y) = Inr s"
    using assms(3) by (rule press_over)
next
  assume l: "stack_len R (board s) \<ge> 1"
  then obtain n where n: "stack_len R (board s) = Suc n"
    by (cases "stack_len R (board s)") simp_all
  from reachable_playable_below [OF assms(1,2)] n
  show p: "\<not> is_game_over R (pop R (board s))" by simp
  have e: "handle_event R s (KEYDOWN K_u) = update_score R (s\<lparr>board := pop R (board s)\<rparr>)"
    using l by (rule undo_result)
  {
    assume "handle_event R s (KEYDOWN K_u) = Inr s'"
    then have "update_score R (s\<lparr>board := pop R (board s)\<rparr>) = Inr s'"
      unfolding e by simp
    from update_score_keeps(1) [OF this] show b: "board s' = pop R (board s)" by simp
    from p b show "\<not> is_game_over R (board s')" by simp
  }
  {
    assume "fst (get_evaluation_score R (s\<lparr>board := pop R (board s)\<rparr>)) = Inr v"
    from update_score_total [OF this]
    show "\<exists>t. handle_event R s (KEYDOWN K_u) = Inr t \<and> board t = pop R (board s)"
      unfolding e by auto
  }
next
  let ?s0 = "s\<lparr>board := start R, selected_square := None, last_ai_move := None\<rparr>"
  {
    assume "handle_event R s (KEYDOWN K_r) = Inr s''"
    then have "update_score R ?s0 = Inr s''"
      unfolding restart_result by simp
    from update_score_keeps(1) [OF this] show "board s'' = start R" by simp
  }
  {
    assume "fst (get_evaluation_score R (s\<lparr>board := start R\<rparr>)) = Inr w"
    moreover have "get_evaluation_score R ?s0 = get_evaluation_score R (s\<lparr>board := start R\<rparr>)"
      by (rule get_evaluation_score_reads) simp_all
    ultimately have "fst (get_evaluation_score R ?s0) = Inr w" by simp
    from update_score_total [OF this]
    show "\<exists>t. handle_event R s (KEYDOWN K_r) = Inr t \<and> board t = start R"
      unfolding restart_result by auto
  }
qed

text \<open>
  On \<open>mated_state\<close>, where the engine's Qd8-h4 has mated: a press on a2 changes
  nothing, and the undo key pops Qd8-h4 and leaves a game that is not over.
\<close>

theorem game_over_keys_still_act_witness:
  "stack_laws fools_mate_rules \<and> reachable fools_mate_rules mated_state \<and>
   is_game_over fools_mate_rules (board mated_state) \<and>
   stack_len fools_mate_rules (board mated_state) \<ge> 1 \<and>
   handle_event fools_mate_rules mated_state (MOUSEBUTTONDOWN 10 310) = Inr mated_state \<and>
   handle_event fools_mate_rules mated_state (KEYDOWN K_u) = Inr taken_back_state \<and>
   board taken_back_state = pop fools_mate_rules (board mated_state) \<and>
   \<not> is_game_over fools_mate_rules (board taken_back_state)"
proof -
  let ?R = fools_mate_rules
  have o: "is_game_over ?R (board mated_state)"
    and l: "stack_len ?R (board mated_state) \<ge> 1"
    by (simp_all add: mated_state_def game_defs)
  note th = game_over_keys_still_act [OF fools_mate_stack_laws reachable_mated o,
      of 10 310 taken_back_state]
  from th have 1: "handle_event ?R mated_state (MOUSEBUTTONDOWN 10 310) = Inr mated_state"
    by blast
  from th l undo_mated
  have 2: "board taken_back_state = pop ?R (board mated_state) \<and>
      \<not> is_game_over ?R (board taken_back_state)"
    by blast
  from fools_mate_stack_laws reachable_mated o l 1 undo_mated 2 show ?thesis by blast
qed

end
